theory Spec2Isabelle
  imports Complex_Main "HOL-Library.Char_ord" "HOL-Library.List_Lexorder" "HOL-Library.Multiset"
begin

section \<open>Decoded log records\<close>

text \<open>
  A value produced by \<^verbatim>\<open>json.loads\<close>. Python strings are carried as their UTF-8 bytes:
  the bytewise lexicographic order of UTF-8 is the code point order Python sorts keys by,
  and \<^verbatim>\<open>.encode("utf-8")\<close> is then the identity. A float is carried by the text
  \<^verbatim>\<open>json.dumps\<close> emits for it (\<^verbatim>\<open>float.__repr__\<close>, or NaN, Infinity, -Infinity), which
  determines the float. A dict is an association list in insertion order; Python dicts
  have pairwise distinct keys, which \<open>wf_json\<close> states.
\<close>

datatype json =
    JNull
  | JBool bool
  | JInt int
  | JFloat string
  | JStr string
  | JArr "json list"
  | JObj "(string \<times> json) list"

type_synonym dict = "(string \<times> json) list"

datatype error = AttributeError | KeyError | ZeroDivisionError


text \<open>
  Python truthiness, as \<^verbatim>\<open>if fr:\<close>, \<^verbatim>\<open>x or y\<close> and \<^verbatim>\<open>bool(x)\<close> test it. The floats that are
  false are the two zeros, whose texts are \<^verbatim>\<open>0.0\<close> and \<^verbatim>\<open>-0.0\<close>.
\<close>

fun truthy :: "json \<Rightarrow> bool" where
  "truthy JNull = False"
| "truthy (JBool b) = b"
| "truthy (JInt i) = (i \<noteq> 0)"
| "truthy (JFloat r) = (r \<noteq> ''0.0'' \<and> r \<noteq> ''-0.0'')"
| "truthy (JStr s) = (s \<noteq> [])"
| "truthy (JArr xs) = (xs \<noteq> [])"
| "truthy (JObj kvs) = (kvs \<noteq> [])"

text \<open>\<^verbatim>\<open>x or y\<close>\<close>

definition py_or :: "json \<Rightarrow> json \<Rightarrow> json" where
  "py_or x y = (if truthy x then x else y)"

text \<open>\<^verbatim>\<open>d.get(key, default)\<close> on a dict.\<close>

definition dict_get :: "dict \<Rightarrow> string \<Rightarrow> json \<Rightarrow> json" where
  "dict_get d k dflt = (case map_of d k of None \<Rightarrow> dflt | Some v \<Rightarrow> v)"

text \<open>
  \<^verbatim>\<open>x.get(key, default)\<close> on any decoded value: of the types \<^verbatim>\<open>json.loads\<close> produces only
  dict has a \<^verbatim>\<open>get\<close> attribute.
\<close>

definition attr_get :: "json \<Rightarrow> string \<Rightarrow> json \<Rightarrow> error + json" where
  "attr_get x k dflt = (case x of JObj d \<Rightarrow> Inr (dict_get d k dflt) | _ \<Rightarrow> Inl AttributeError)"

section \<open>Canonical serialisation\<close>

text \<open>
  \<^verbatim>\<open>json.dumps(obj, ensure_ascii=False, sort_keys=True)\<close> with the default separators
  \<^verbatim>\<open>", "\<close> and \<^verbatim>\<open>": "\<close>.
\<close>

definition hex_digit :: "nat \<Rightarrow> char" where
  "hex_digit n = (if n < 10 then char_of (48 + n) else char_of (87 + n))"

text \<open>
  The escape table of \<^verbatim>\<open>json.encoder.py_encode_basestring\<close>: backslash, double quote,
  the five named control characters, and \<^verbatim>\<open>\u00XX\<close> for the other bytes below 0x20.
\<close>

definition escape_char :: "char \<Rightarrow> string" where
  "escape_char c =
    (if c = CHR 0x5C then [CHR 0x5C, CHR 0x5C]
     else if c = CHR 0x22 then [CHR 0x5C, CHR 0x22]
     else if c = CHR 0x08 then [CHR 0x5C, CHR ''b'']
     else if c = CHR 0x0C then [CHR 0x5C, CHR ''f'']
     else if c = CHR 0x0A then [CHR 0x5C, CHR ''n'']
     else if c = CHR 0x0D then [CHR 0x5C, CHR ''r'']
     else if c = CHR 0x09 then [CHR 0x5C, CHR ''t'']
     else if (of_char c :: nat) < 32
       then [CHR 0x5C, CHR ''u'', CHR ''0'', CHR ''0'',
             hex_digit (of_char c div 16), hex_digit (of_char c mod 16)]
     else [c])"

definition encode_basestring :: "string \<Rightarrow> string" where
  "encode_basestring s = [CHR 0x22] @ concat (map escape_char s) @ [CHR 0x22]"

function nat_digits :: "nat \<Rightarrow> string" where
  "nat_digits n =
    (if n < 10 then [char_of (48 + n)] else nat_digits (n div 10) @ [char_of (48 + n mod 10)])"
  by pat_completeness auto
termination
  by (relation "measure id") auto

text \<open>\<^verbatim>\<open>int.__repr__\<close>\<close>

definition int_repr :: "int \<Rightarrow> string" where
  "int_repr i = (if i < 0 then CHR ''-'' # nat_digits (nat (- i)) else nat_digits (nat i))"

fun join :: "string \<Rightarrow> string list \<Rightarrow> string" where
  "join sep [] = []"
| "join sep [x] = x"
| "join sep (x # y # ys) = x @ sep @ join sep (y # ys)"

function dumps :: "json \<Rightarrow> string" where
  "dumps JNull = ''null''"
| "dumps (JBool b) = (if b then ''true'' else ''false'')"
| "dumps (JInt i) = int_repr i"
| "dumps (JFloat r) = r"
| "dumps (JStr s) = encode_basestring s"
| "dumps (JArr xs) = ''['' @ join '', '' (map dumps xs) @ '']''"
| "dumps (JObj kvs) =
     ''{'' @ join '', '' (map (\<lambda>p. encode_basestring (fst p) @ '': '' @ dumps (snd p))
                              (sort_key fst kvs)) @ ''}''"
  by pat_completeness auto
termination
proof (relation "measure size")
  fix xs :: "json list" and x
  assume "x \<in> set xs"
  then have "size x \<le> size_list size xs" by (simp add: size_list_estimation')
  then show "(x, JArr xs) \<in> measure size" by simp
next
  fix kvs :: "(string \<times> json) list" and p
  assume "p \<in> set (sort_key fst kvs)"
  then have "p \<in> set kvs" by simp
  then have "size_prod (\<lambda>_. 0) size p \<le> size_list (size_prod (\<lambda>_. 0) size) kvs"
    by (simp add: size_list_estimation')
  then show "(snd p, JObj kvs) \<in> measure size" by (cases p) simp
qed simp

section \<open>Fingerprint Function\<close>

text \<open>
  \<^verbatim>\<open>compute_messages_hash\<close>. The digest \<^verbatim>\<open>hashlib.md5(...).hexdigest()\<close> is the parameter
  \<open>H\<close>: a function from the serialised bytes to the hexadecimal string.
  \<^verbatim>\<open>entry.get("request", {})\<close> returns whatever is stored under the key, so a stored
  value that is not a dict makes \<^verbatim>\<open>req.get\<close> raise AttributeError.
\<close>

definition compute_messages_hash :: "(string \<Rightarrow> string) \<Rightarrow> dict \<Rightarrow> error + string" where
  "compute_messages_hash H entry =
    (let req = dict_get entry ''request'' (JObj []) in
     case attr_get req ''messages'' (JArr []) of Inl e \<Rightarrow> Inl e | Inr messages \<Rightarrow>
     case attr_get req ''tools'' JNull of Inl e \<Rightarrow> Inl e | Inr tools \<Rightarrow>
     case attr_get req ''tool_choice'' JNull of Inl e \<Rightarrow> Inl e | Inr tool_choice \<Rightarrow>
     let key_obj = JObj [(''messages'', messages), (''tools'', tools),
                         (''tool_choice'', tool_choice)];
         serialized = dumps key_obj
     in Inr (H serialized))"

section \<open>Finish-Reason Extractor\<close>

text \<open>
  \<^verbatim>\<open>extract_finish_reason\<close>. The test \<^verbatim>\<open>choices and isinstance(choices, list)\<close> holds
  exactly for a non-empty list, whose element 0 exists. \<^verbatim>\<open>None\<close> is \<open>JNull\<close>.
\<close>

definition extract_finish_reason :: "dict \<Rightarrow> error + json" where
  "extract_finish_reason entry =
    (let fr = dict_get entry ''finish_reason'' JNull in
     if truthy fr then Inr fr
     else
       let resp = py_or (dict_get entry ''response'' JNull) (JObj []) in
       case attr_get resp ''choices'' JNull of Inl e \<Rightarrow> Inl e | Inr c \<Rightarrow>
       let choices = py_or c (JArr []) in
       (case choices of
          JArr (c0 # cs) \<Rightarrow>
            (let ch0 = py_or c0 (JObj []) in
             case attr_get ch0 ''finish_reason'' JNull of Inl e \<Rightarrow> Inl e | Inr fr' \<Rightarrow>
             if truthy fr' then Inr fr' else Inr JNull)
        | _ \<Rightarrow> Inr JNull))"

section \<open>Alignment Index Builder\<close>

text \<open>
  \<^verbatim>\<open>build_map_by_messages_hash\<close>. The mapping is a Python dict: an association list in
  insertion order, a new key appended at the end.
\<close>

type_synonym index = "(string \<times> dict) list"

fun build_loop ::
  "(string \<Rightarrow> string) \<Rightarrow> dict list \<Rightarrow> index \<Rightarrow> int \<Rightarrow> error + (index \<times> int)" where
  "build_loop H [] mapping dups = Inr (mapping, dups)"
| "build_loop H (r # rows) mapping dups =
    (case compute_messages_hash H r of
       Inl e \<Rightarrow> Inl e
     | Inr h \<Rightarrow>
         if h \<in> set (map fst mapping) then build_loop H rows mapping (dups + 1)
         else build_loop H rows (mapping @ [(h, r)]) dups)"

definition build_map_by_messages_hash ::
  "(string \<Rightarrow> string) \<Rightarrow> dict list \<Rightarrow> error + (index \<times> int)" where
  "build_map_by_messages_hash H rows = build_loop H rows [] 0"

section \<open>Classifier and Aggregator\<close>

record counters =
  TP :: int
  FP :: int
  FN :: int
  TN :: int
  count_finish_reason_tool_calls :: int
  count_successful_tool_call :: int

definition counters0 :: counters where
  "counters0 = \<lparr>TP = 0, FP = 0, FN = 0, TN = 0,
                 count_finish_reason_tool_calls = 0, count_successful_tool_call = 0\<rparr>"

text \<open>\<^verbatim>\<open>isinstance(fr, str) and fr == "tool_calls"\<close>\<close>

definition is_tool_calls :: "json \<Rightarrow> bool" where
  "is_tool_calls fr = (case fr of JStr s \<Rightarrow> s = ''tool_calls'' | _ \<Rightarrow> False)"

text \<open>\<^verbatim>\<open>m[h]\<close> on a dict.\<close>

definition dict_item :: "('k \<times> 'v) list \<Rightarrow> 'k \<Rightarrow> error + 'v" where
  "dict_item m h = (case map_of m h of None \<Rightarrow> Inl KeyError | Some v \<Rightarrow> Inr v)"

text \<open>\<^verbatim>\<open>sorted(keys_ours & keys_off)\<close>\<close>

definition aligned_keys :: "index \<Rightarrow> index \<Rightarrow> string list" where
  "aligned_keys ours_map off_map =
    sorted_list_of_set (set (map fst ours_map) \<inter> set (map fst off_map))"

text \<open>The body of the loop \<^verbatim>\<open>for h in aligned\<close> of \<^verbatim>\<open>main\<close>.\<close>

definition classify_step :: "index \<Rightarrow> index \<Rightarrow> string \<Rightarrow> counters \<Rightarrow> error + counters" where
  "classify_step ours_map off_map h c =
    (case dict_item ours_map h of Inl e \<Rightarrow> Inl e | Inr ours \<Rightarrow>
     case dict_item off_map h of Inl e \<Rightarrow> Inl e | Inr off \<Rightarrow>
     case extract_finish_reason ours of Inl e \<Rightarrow> Inl e | Inr fr_ours \<Rightarrow>
     case extract_finish_reason off of Inl e \<Rightarrow> Inl e | Inr fr_off \<Rightarrow>
     let ours_tc = is_tool_calls fr_ours;
         off_tc = is_tool_calls fr_off;
         c1 = (if ours_tc \<and> off_tc then c\<lparr>TP := TP c + 1\<rparr>
               else if ours_tc \<and> \<not> off_tc then c\<lparr>FP := FP c + 1\<rparr>
               else if \<not> ours_tc \<and> off_tc then c\<lparr>FN := FN c + 1\<rparr>
               else c\<lparr>TN := TN c + 1\<rparr>)
     in Inr (if ours_tc then
               (let c2 = c1\<lparr>count_finish_reason_tool_calls :=
                                count_finish_reason_tool_calls c1 + 1\<rparr>
                in if truthy (dict_get ours ''tool_calls_valid'' JNull)
                   then c2\<lparr>count_successful_tool_call := count_successful_tool_call c2 + 1\<rparr>
                   else c2)
             else c1))"

fun classify_loop :: "index \<Rightarrow> index \<Rightarrow> string list \<Rightarrow> counters \<Rightarrow> error + counters" where
  "classify_loop ours_map off_map [] c = Inr c"
| "classify_loop ours_map off_map (h # hs) c =
    (case classify_step ours_map off_map h c of
       Inl e \<Rightarrow> Inl e
     | Inr c' \<Rightarrow> classify_loop ours_map off_map hs c')"

text \<open>
  The derived ratios, lines 118 to 124 of \<^verbatim>\<open>main\<close>. Python's \<^verbatim>\<open>/\<close> raises
  ZeroDivisionError on a zero divisor. The quotients are taken exactly, over the
  rationals: rounding to a double is left out, and no statement below depends on it.
\<close>

definition py_truediv :: "rat \<Rightarrow> rat \<Rightarrow> error + rat" where
  "py_truediv a b = (if b = 0 then Inl ZeroDivisionError else Inr (a / b))"

record ratios =
  precision :: rat
  recall :: rat
  f1 :: rat
  schema_accuracy :: rat

definition derive_ratios :: "counters \<Rightarrow> error + ratios" where
  "derive_ratios c =
    (case (if TP c + FP c > 0 then py_truediv (of_int (TP c)) (of_int (TP c + FP c))
           else Inr 0) of Inl e \<Rightarrow> Inl e | Inr p \<Rightarrow>
     case (if TP c + FN c > 0 then py_truediv (of_int (TP c)) (of_int (TP c + FN c))
           else Inr 0) of Inl e \<Rightarrow> Inl e | Inr r \<Rightarrow>
     case (if p + r > 0 then py_truediv (2 * p * r) (p + r)
           else Inr 0) of Inl e \<Rightarrow> Inl e | Inr f \<Rightarrow>
     case (if count_finish_reason_tool_calls c > 0
           then py_truediv (of_int (count_successful_tool_call c))
                           (of_int (count_finish_reason_tool_calls c))
           else Inr 0) of Inl e \<Rightarrow> Inl e | Inr s \<Rightarrow>
     Inr \<lparr>precision = p, recall = r, f1 = f, schema_accuracy = s\<rparr>)"

text \<open>
  The summary document. The fields that repeat a name of the loop state carry the
  prefix \<open>out\<close>. \<^verbatim>\<open>round(x, 2)\<close> is the parameter \<open>round2\<close>.
\<close>

record summary =
  ours_total_unique_hashes :: int
  official_total_unique_hashes :: int
  aligned :: int
  duplicate_ours_hashes :: int
  duplicate_official_hashes :: int
  key_type :: string
  out_TP :: int
  out_FP :: int
  out_FN :: int
  out_TN :: int
  out_precision :: rat
  out_recall :: rat
  tool_call_f1 :: rat
  out_count_finish_reason_tool_calls :: int
  out_count_successful_tool_call :: int
  out_schema_accuracy :: rat

text \<open>
  \<^verbatim>\<open>main\<close> from the initialisation of the counters to the summary, given the two
  indices, their duplicate counts and the list \<open>hs\<close> the loop iterates over.
\<close>

definition summarize ::
  "(rat \<Rightarrow> rat) \<Rightarrow> index \<Rightarrow> int \<Rightarrow> index \<Rightarrow> int \<Rightarrow> string list \<Rightarrow> error + summary" where
  "summarize round2 ours_map ours_dups off_map off_dups hs =
    (case classify_loop ours_map off_map hs counters0 of Inl e \<Rightarrow> Inl e | Inr c \<Rightarrow>
     case derive_ratios c of Inl e \<Rightarrow> Inl e | Inr q \<Rightarrow>
     Inr \<lparr>ours_total_unique_hashes = int (length ours_map),
          official_total_unique_hashes = int (length off_map),
          aligned = int (length hs),
          duplicate_ours_hashes = ours_dups,
          duplicate_official_hashes = off_dups,
          key_type = ''messages_tools_tool_choice_hash'',
          out_TP = TP c, out_FP = FP c, out_FN = FN c, out_TN = TN c,
          out_precision = round2 (precision q * 100),
          out_recall = round2 (recall q * 100),
          tool_call_f1 = round2 (f1 q * 100),
          out_count_finish_reason_tool_calls = count_finish_reason_tool_calls c,
          out_count_successful_tool_call = count_successful_tool_call c,
          out_schema_accuracy = round2 (schema_accuracy q * 100)\<rparr>)"

text \<open>\<^verbatim>\<open>main\<close> between the two loaded row lists and the summary it writes.\<close>

definition main_core ::
  "(string \<Rightarrow> string) \<Rightarrow> (rat \<Rightarrow> rat) \<Rightarrow> dict list \<Rightarrow> dict list \<Rightarrow> error + summary" where
  "main_core H round2 ours_rows off_rows =
    (case build_map_by_messages_hash H ours_rows of
       Inl e \<Rightarrow> Inl e
     | Inr (ours_map, ours_dups) \<Rightarrow>
    (case build_map_by_messages_hash H off_rows of
       Inl e \<Rightarrow> Inl e
     | Inr (off_map, off_dups) \<Rightarrow>
         summarize round2 ours_map ours_dups off_map off_dups
           (aligned_keys ours_map off_map)))"

section \<open>Notions the properties are stated with\<close>

text \<open>
  Equality of decoded values as logical values: two objects are equal when they have
  the same keys and equal values under each key, in whatever order the keys were
  inserted; arrays are equal elementwise, in order. This is Python's \<^verbatim>\<open>==\<close> on decoded
  values without its identification of numbers of different types.
\<close>

function json_equiv :: "json \<Rightarrow> json \<Rightarrow> bool" where
  "json_equiv (JArr xs) b = (case b of JArr ys \<Rightarrow> list_all2 json_equiv xs ys | _ \<Rightarrow> False)"
| "json_equiv (JObj kvs) b =
     (case b of
        JObj kvs' \<Rightarrow>
          length kvs = length kvs' \<and>
          list_all (\<lambda>p. list_ex (\<lambda>q. fst p = fst q \<and> json_equiv (snd p) (snd q)) kvs') kvs
      | _ \<Rightarrow> False)"
| "json_equiv JNull b = (b = JNull)"
| "json_equiv (JBool x) b = (b = JBool x)"
| "json_equiv (JInt i) b = (b = JInt i)"
| "json_equiv (JFloat r) b = (b = JFloat r)"
| "json_equiv (JStr s) b = (b = JStr s)"
  by pat_completeness auto
termination
proof (relation "measure (\<lambda>(a, b). size a)")
  fix xs :: "json list" and b ys x y
  assume "x \<in> set xs"
  then have "size x \<le> size_list size xs" by (simp add: size_list_estimation')
  then show "((x, y), (JArr xs, b)) \<in> measure (\<lambda>(a, b). size a)" by simp
next
  fix kvs kvs' :: "(string \<times> json) list" and b :: json and p q :: "string \<times> json"
  assume "p \<in> set kvs"
  then have "size_prod (\<lambda>_. 0) size p \<le> size_list (size_prod (\<lambda>_. 0) size) kvs"
    by (simp add: size_list_estimation')
  then show "((snd p, snd q), (JObj kvs, b)) \<in> measure (\<lambda>(a, b). size a)" by (cases p) simp
qed simp

text \<open>
  The extractor as the specification words it, in priority order: the top-level
  \<^verbatim>\<open>finish_reason\<close> when the record has one that is not empty; otherwise the
  \<^verbatim>\<open>finish_reason\<close> of the first element of \<^verbatim>\<open>response.choices\<close> when the record has a
  \<^verbatim>\<open>response\<close> structure with a non-empty \<^verbatim>\<open>choices\<close> sequence whose first element has one
  that is not empty; otherwise the absence marker. A value is empty when Python takes it
  for false.
\<close>

definition nested_finish_reason :: "dict \<Rightarrow> json" where
  "nested_finish_reason entry =
    (case map_of entry ''response'' of
       Some (JObj resp) \<Rightarrow>
         (case map_of resp ''choices'' of
            Some (JArr (JObj ch0 # cs)) \<Rightarrow>
              (case map_of ch0 ''finish_reason'' of
                 Some fr \<Rightarrow> if truthy fr then fr else JNull
               | None \<Rightarrow> JNull)
          | _ \<Rightarrow> JNull)
     | _ \<Rightarrow> JNull)"

definition spec_finish_reason :: "dict \<Rightarrow> json" where
  "spec_finish_reason entry =
    (case map_of entry ''finish_reason'' of
       Some fr \<Rightarrow> if truthy fr then fr else nested_finish_reason entry
     | None \<Rightarrow> nested_finish_reason entry)"

definition is_object :: "json \<Rightarrow> bool" where
  "is_object v = (case v of JObj d \<Rightarrow> True | _ \<Rightarrow> False)"

definition nested_shape_ok :: "dict \<Rightarrow> bool" where
  "nested_shape_ok entry =
    (case dict_get entry ''response'' JNull of
       JObj resp \<Rightarrow>
         (case dict_get resp ''choices'' JNull of
            JArr (c0 # cs) \<Rightarrow> \<not> truthy c0 \<or> is_object c0
          | _ \<Rightarrow> True)
     | v \<Rightarrow> \<not> truthy v)"

text \<open>What the source makes of the first element of \<^verbatim>\<open>choices\<close>.\<close>

definition first_choice_reason :: "json \<Rightarrow> error + json" where
  "first_choice_reason c0 =
    (case c0 of
       JObj ch0 \<Rightarrow> Inr (if truthy (dict_get ch0 ''finish_reason'' JNull)
                         then dict_get ch0 ''finish_reason'' JNull else JNull)
     | _ \<Rightarrow> if truthy c0 then Inl AttributeError else Inr JNull)"

text \<open>
  The two sides of an aligned fingerprint: whether the finish reason of the record
  stored under \<open>h\<close> can be extracted, whether it is a trigger, and whether the record's
  \<^verbatim>\<open>tool_calls_valid\<close> is truthy. \<open>tally\<close> adds to each counter the number of fingerprints
  of \<open>hs\<close> in its class.
\<close>

definition side_ok :: "index \<Rightarrow> string \<Rightarrow> bool" where
  "side_ok m h =
    (case map_of m h of
       Some e \<Rightarrow> (case extract_finish_reason e of Inr fr \<Rightarrow> True | Inl x \<Rightarrow> False)
     | None \<Rightarrow> False)"

definition side_triggered :: "index \<Rightarrow> string \<Rightarrow> bool" where
  "side_triggered m h =
    (case map_of m h of
       Some e \<Rightarrow> (case extract_finish_reason e of Inr fr \<Rightarrow> is_tool_calls fr | Inl x \<Rightarrow> False)
     | None \<Rightarrow> False)"

definition side_valid :: "index \<Rightarrow> string \<Rightarrow> bool" where
  "side_valid m h =
    (case map_of m h of
       Some e \<Rightarrow> truthy (dict_get e ''tool_calls_valid'' JNull)
     | None \<Rightarrow> False)"

definition tally :: "index \<Rightarrow> index \<Rightarrow> string list \<Rightarrow> counters \<Rightarrow> counters" where
  "tally ours_map off_map hs c =
    \<lparr>TP = TP c + int (length (filter (\<lambda>h. side_triggered ours_map h \<and> side_triggered off_map h) hs)),
     FP = FP c + int (length (filter (\<lambda>h. side_triggered ours_map h \<and> \<not> side_triggered off_map h) hs)),
     FN = FN c + int (length (filter (\<lambda>h. \<not> side_triggered ours_map h \<and> side_triggered off_map h) hs)),
     TN = TN c + int (length (filter (\<lambda>h. \<not> side_triggered ours_map h \<and> \<not> side_triggered off_map h) hs)),
     count_finish_reason_tool_calls = count_finish_reason_tool_calls c
       + int (length (filter (side_triggered ours_map) hs)),
     count_successful_tool_call = count_successful_tool_call c
       + int (length (filter (\<lambda>h. side_triggered ours_map h \<and> side_valid ours_map h) hs))\<rparr>"

text \<open>
  Sample data for the instances below: two indices with three fingerprints in common
  and one more on each side; three rows of which the second repeats the request of the
  first with its keys in another order, and the third has no \<^verbatim>\<open>request\<close>.
\<close>

definition sample_ours_index :: index where
  "sample_ours_index =
    [(''b'', [(''finish_reason'', JStr ''tool_calls''), (''tool_calls_valid'', JBool True)]),
     (''a'', [(''finish_reason'', JStr ''tool_calls'')]),
     (''d'', [(''finish_reason'', JStr ''stop'')]),
     (''c'', [(''finish_reason'', JStr ''tool_calls''), (''tool_calls_valid'', JBool True)])]"

definition sample_off_index :: index where
  "sample_off_index =
    [(''a'', [(''response'', JObj [(''choices'', JArr [JObj [(''finish_reason'', JStr ''stop'')]])])]),
     (''e'', [(''finish_reason'', JStr ''tool_calls'')]),
     (''d'', [(''finish_reason'', JStr ''tool_calls'')]),
     (''b'', [(''response'', JObj [(''choices'', JArr [JObj [(''finish_reason'', JStr ''tool_calls'')]])])])]"


section \<open>Serialisation with sorted keys is canonical\<close>






text \<open>The relation holds of a value and itself, and of two objects with the same entries in
  any order.\<close>

lemma json_equiv_refl: "json_equiv a a"
proof (induction a)
  case (JArr xs)
  then show ?case by (simp add: list_all2_conv_all_nth)
next
  case (JObj kvs)
  have "list_all (\<lambda>p. list_ex (\<lambda>q. fst p = fst q \<and> json_equiv (snd p) (snd q)) kvs) kvs"
    unfolding list_all_iff list_ex_iff
  proof
    fix p assume p: "p \<in> set kvs"
    moreover have "snd p \<in> Basic_BNFs.snds p" by (cases p) simp
    ultimately have "json_equiv (snd p) (snd p)" using JObj.IH by blast
    then show "\<exists>q\<in>set kvs. fst p = fst q \<and> json_equiv (snd p) (snd q)" using p by blast
  qed
  then show ?case by simp
qed simp_all

lemma json_equiv_reorder:
  assumes "mset kvs = mset kvs'"
  shows "json_equiv (JObj kvs) (JObj kvs')"
proof -
  have s: "set kvs = set kvs'" using assms by (rule mset_eq_setD)
  have l: "length kvs = length kvs'" using assms by (rule mset_eq_length)
  have "list_all (\<lambda>p. list_ex (\<lambda>q. fst p = fst q \<and> json_equiv (snd p) (snd q)) kvs') kvs"
    unfolding list_all_iff list_ex_iff using s json_equiv_refl by blast
  then show ?thesis using l by simp
qed




section \<open>Fingerprint determinism\<close>



section \<open>Finish-Reason Extractor: priority order\<close>

lemma extract_top_level:
  "truthy (dict_get e ''finish_reason'' JNull) \<Longrightarrow>
   extract_finish_reason e = Inr (dict_get e ''finish_reason'' JNull)"
  by (simp add: extract_finish_reason_def)

lemma spec_top_level:
  "truthy (dict_get e ''finish_reason'' JNull) \<Longrightarrow>
   spec_finish_reason e = dict_get e ''finish_reason'' JNull"
  by (auto simp: spec_finish_reason_def dict_get_def split: option.splits)

lemma spec_nested:
  "\<not> truthy (dict_get e ''finish_reason'' JNull) \<Longrightarrow>
   spec_finish_reason e = nested_finish_reason e"
  by (auto simp: spec_finish_reason_def dict_get_def split: option.splits)

lemma attr_get_py_or:
  "attr_get (py_or v (JObj [])) k JNull =
     (case v of JObj d \<Rightarrow> Inr (dict_get d k JNull)
      | _ \<Rightarrow> if truthy v then Inl AttributeError else Inr JNull)"
  by (cases v) (auto simp: attr_get_def py_or_def dict_get_def)

lemma py_or_choices:
  "(case py_or c (JArr []) of JArr [] \<Rightarrow> z | JArr (c0 # cs) \<Rightarrow> f c0 cs | _ \<Rightarrow> z) =
   (case c of JArr [] \<Rightarrow> z | JArr (c0 # cs) \<Rightarrow> f c0 cs | _ \<Rightarrow> z)"
  by (cases c) (auto simp: py_or_def split: list.splits)

lemma extract_nested:
  assumes "\<not> truthy (dict_get e ''finish_reason'' JNull)"
  shows "extract_finish_reason e =
    (case dict_get e ''response'' JNull of
       JObj resp \<Rightarrow>
         (case dict_get resp ''choices'' JNull of
            JArr [] \<Rightarrow> Inr JNull
          | JArr (c0 # cs) \<Rightarrow> first_choice_reason c0
          | _ \<Rightarrow> Inr JNull)
     | v \<Rightarrow> if truthy v then Inl AttributeError else Inr JNull)"
proof -
  have fc: "\<And>c0. (case attr_get (py_or c0 (JObj [])) ''finish_reason'' JNull of
               Inl e \<Rightarrow> Inl e
             | Inr fr' \<Rightarrow> if truthy fr' then Inr fr' else Inr JNull) = first_choice_reason c0"
    subgoal for c0
      by (cases c0) (simp_all add: attr_get_py_or first_choice_reason_def)
    done
  have "extract_finish_reason e =
     (case attr_get (py_or (dict_get e ''response'' JNull) (JObj [])) ''choices'' JNull of
        Inl e \<Rightarrow> Inl e
      | Inr c \<Rightarrow>
          (case py_or c (JArr []) of
             JArr [] \<Rightarrow> Inr JNull
           | JArr (c0 # cs) \<Rightarrow> first_choice_reason c0
           | _ \<Rightarrow> Inr JNull))"
    using assms unfolding extract_finish_reason_def Let_def
    by (simp add: fc split: sum.splits json.splits list.splits)
  then show ?thesis
    by (cases "dict_get e ''response'' JNull")
       (simp_all add: attr_get_py_or py_or_choices)
qed


lemma nested_finish_reason_get:
  "nested_finish_reason e =
    (case dict_get e ''response'' JNull of
       JObj resp \<Rightarrow>
         (case dict_get resp ''choices'' JNull of
            JArr [] \<Rightarrow> JNull
          | JArr (c0 # cs) \<Rightarrow>
              (case c0 of
                 JObj ch0 \<Rightarrow> if truthy (dict_get ch0 ''finish_reason'' JNull)
                             then dict_get ch0 ''finish_reason'' JNull else JNull
               | _ \<Rightarrow> JNull)
          | _ \<Rightarrow> JNull)
     | _ \<Rightarrow> JNull)"
proof (cases "map_of e ''response''")
  case None
  then show ?thesis by (simp add: nested_finish_reason_def dict_get_def)
next
  case (Some v)
  show ?thesis
  proof (cases v)
    case (JObj resp)
    show ?thesis
    proof (cases "map_of resp ''choices''")
      case None
      then show ?thesis using Some JObj by (simp add: nested_finish_reason_def dict_get_def)
    next
      case c: (Some c)
      show ?thesis
      proof (cases c)
        case (JArr xs)
        show ?thesis
        proof (cases xs)
          case Nil
          then show ?thesis using Some JObj c JArr
            by (simp add: nested_finish_reason_def dict_get_def)
        next
          case (Cons c0 cs)
          then show ?thesis using Some JObj c JArr
            by (cases c0) (simp_all add: nested_finish_reason_def dict_get_def split: option.splits)
        qed
      qed (use Some JObj c in \<open>simp_all add: nested_finish_reason_def dict_get_def\<close>)
    qed
  qed (use Some in \<open>simp_all add: nested_finish_reason_def dict_get_def\<close>)
qed

lemma extract_nested_ok:
  assumes "\<not> truthy (dict_get e ''finish_reason'' JNull)" and "nested_shape_ok e"
  shows "extract_finish_reason e = Inr (nested_finish_reason e)"
proof (cases "dict_get e ''response'' JNull")
  case (JObj resp)
  show ?thesis
  proof (cases "dict_get resp ''choices'' JNull")
    case (JArr xs)
    show ?thesis
    proof (cases xs)
      case Nil
      then show ?thesis using JObj JArr
        by (simp add: extract_nested[OF assms(1)] nested_finish_reason_get)
    next
      case (Cons c0 cs)
      then have "\<not> truthy c0 \<or> is_object c0"
        using assms(2) JObj JArr by (simp add: nested_shape_ok_def)
      then show ?thesis using JObj JArr Cons
        by (cases c0)
           (simp_all add: extract_nested[OF assms(1)] nested_finish_reason_get
              first_choice_reason_def is_object_def)
    qed
  qed (use JObj in \<open>simp_all add: extract_nested[OF assms(1)] nested_finish_reason_get\<close>)
qed (use assms(2) in \<open>simp_all add: extract_nested[OF assms(1)] nested_finish_reason_get
       nested_shape_ok_def\<close>)

lemma extract_nested_bad:
  assumes "\<not> truthy (dict_get e ''finish_reason'' JNull)" and "\<not> nested_shape_ok e"
  shows "extract_finish_reason e = Inl AttributeError"
proof (cases "dict_get e ''response'' JNull")
  case (JObj resp)
  show ?thesis
  proof (cases "dict_get resp ''choices'' JNull")
    case (JArr xs)
    show ?thesis
    proof (cases xs)
      case Nil
      then show ?thesis using JObj JArr assms(2) by (simp add: nested_shape_ok_def)
    next
      case (Cons c0 cs)
      then have "truthy c0 \<and> \<not> is_object c0"
        using assms(2) JObj JArr by (simp add: nested_shape_ok_def)
      then show ?thesis using JObj JArr Cons
        by (cases c0)
           (simp_all add: extract_nested[OF assms(1)] first_choice_reason_def is_object_def)
    qed
  qed (use JObj assms(2) in \<open>simp_all add: nested_shape_ok_def\<close>)
qed (use assms(2) in \<open>simp_all add: extract_nested[OF assms(1)] nested_shape_ok_def\<close>)

lemma extract_error_kind: "extract_finish_reason e = Inl x \<Longrightarrow> x = AttributeError"
  by (cases "truthy (dict_get e ''finish_reason'' JNull)"; cases "nested_shape_ok e")
     (simp_all add: extract_top_level extract_nested_ok extract_nested_bad)

text \<open>
  C4, as amended. For every record: a non-empty top-level \<^verbatim>\<open>finish_reason\<close> is returned
  whatever else the record holds; when \<^verbatim>\<open>response\<close> is missing, empty or an object, and the first
  element of a non-empty \<^verbatim>\<open>choices\<close> list is empty or an object, the extractor returns what
  the specification's three steps give; in the remaining case, without a non-empty top-level
  \<^verbatim>\<open>finish_reason\<close>, it raises AttributeError.
\<close>

theorem finish_reason_priority_order:
  "(truthy (dict_get e ''finish_reason'' JNull) \<longrightarrow>
      extract_finish_reason e = Inr (dict_get e ''finish_reason'' JNull))
   \<and> (nested_shape_ok e \<longrightarrow> extract_finish_reason e = Inr (spec_finish_reason e))
   \<and> (\<not> truthy (dict_get e ''finish_reason'' JNull) \<and> \<not> nested_shape_ok e \<longrightarrow>
      extract_finish_reason e = Inl AttributeError)"
  by (cases "truthy (dict_get e ''finish_reason'' JNull)")
     (simp_all add: extract_top_level spec_top_level spec_nested extract_nested_ok
        extract_nested_bad)

text \<open>
  A record whose \<^verbatim>\<open>response\<close> is a string: the three steps of the specification give the
  absence marker, the source raises on \<^verbatim>\<open>resp.get\<close>.
\<close>

theorem finish_reason_counterexample:
  "spec_finish_reason [(''response'', JStr ''error'')] = JNull
   \<and> extract_finish_reason [(''response'', JStr ''error'')] = Inl AttributeError"
  by (simp add: spec_finish_reason_def nested_finish_reason_def extract_finish_reason_def
        dict_get_def py_or_def attr_get_def)

theorem finish_reason_priority_order_witness:
  "nested_shape_ok [(''finish_reason'', JStr []),
      (''response'', JObj [(''choices'', JArr [JObj [(''finish_reason'', JStr ''tool_calls'')]])])]
   \<and> extract_finish_reason [(''finish_reason'', JStr []),
      (''response'', JObj [(''choices'', JArr [JObj [(''finish_reason'', JStr ''tool_calls'')]])])]
     = Inr (JStr ''tool_calls'')
   \<and> truthy (dict_get [(''response'', JStr ''error''), (''finish_reason'', JStr ''stop'')]
        ''finish_reason'' JNull)
   \<and> extract_finish_reason [(''response'', JStr ''error''), (''finish_reason'', JStr ''stop'')]
     = Inr (JStr ''stop'')
   \<and> \<not> nested_shape_ok [(''response'', JObj [(''choices'', JArr [JStr ''stop''])])]
   \<and> extract_finish_reason [(''response'', JObj [(''choices'', JArr [JStr ''stop''])])]
     = Inl AttributeError"
proof -
  let ?e1 = "[(''finish_reason'', JStr []),
      (''response'', JObj [(''choices'', JArr [JObj [(''finish_reason'', JStr ''tool_calls'')]])])]"
  let ?e2 = "[(''response'', JStr ''error''), (''finish_reason'', JStr ''stop'')]"
  let ?e3 = "[(''response'', JObj [(''choices'', JArr [JStr ''stop''])])]"
  have s1: "nested_shape_ok ?e1"
    by (simp add: nested_shape_ok_def dict_get_def is_object_def)
  have v1: "spec_finish_reason ?e1 = JStr ''tool_calls''"
    by (simp add: spec_finish_reason_def nested_finish_reason_def)
  have t2: "truthy (dict_get ?e2 ''finish_reason'' JNull)"
    by (simp add: dict_get_def)
  have v2: "dict_get ?e2 ''finish_reason'' JNull = JStr ''stop''"
    by (simp add: dict_get_def)
  have s3: "\<not> truthy (dict_get ?e3 ''finish_reason'' JNull) \<and> \<not> nested_shape_ok ?e3"
    by (simp add: nested_shape_ok_def dict_get_def is_object_def)
  show ?thesis
    using finish_reason_priority_order[of ?e1] finish_reason_priority_order[of ?e2]
      finish_reason_priority_order[of ?e3] s1 v1 t2 v2 s3
    by simp
qed

section \<open>Alignment Index Builder: first record wins\<close>














section \<open>Classifier: the loop in closed form\<close>

lemma classify_step_closed:
  assumes "h \<in> set (map fst ours_map)" and "h \<in> set (map fst off_map)"
  shows "classify_step ours_map off_map h c =
    (if side_ok ours_map h \<and> side_ok off_map h then Inr (tally ours_map off_map [h] c)
     else Inl AttributeError)"
proof -
  from assms obtain ours off where o: "map_of ours_map h = Some ours" "map_of off_map h = Some off"
    by (metis map_of_eq_None_iff not_Some_eq set_map)
  show ?thesis
  proof (cases "extract_finish_reason ours")
    case (Inl x)
    then show ?thesis using o extract_error_kind[OF Inl]
      by (simp add: classify_step_def dict_item_def side_ok_def)
  next
    case a: (Inr fr_ours)
    show ?thesis
    proof (cases "extract_finish_reason off")
      case (Inl x)
      then show ?thesis using o a extract_error_kind[OF Inl]
        by (simp add: classify_step_def dict_item_def side_ok_def)
    next
      case b: (Inr fr_off)
      show ?thesis using o a b
        by (cases c) (simp add: classify_step_def dict_item_def side_ok_def side_triggered_def
              side_valid_def tally_def Let_def)
    qed
  qed
qed

lemma tally_Nil: "tally ours_map off_map [] c = c"
  by (cases c) (simp add: tally_def)

lemma tally_Cons:
  "tally ours_map off_map hs (tally ours_map off_map [h] c) = tally ours_map off_map (h # hs) c"
  by (simp add: tally_def)

lemma classify_loop_closed:
  assumes "set hs \<subseteq> set (map fst ours_map) \<inter> set (map fst off_map)"
  shows "classify_loop ours_map off_map hs c =
    (if \<forall>h\<in>set hs. side_ok ours_map h \<and> side_ok off_map h
     then Inr (tally ours_map off_map hs c) else Inl AttributeError)"
  using assms
proof (induction hs arbitrary: c)
  case Nil
  show ?case by (simp add: tally_Nil)
next
  case (Cons h hs)
  then have h: "h \<in> set (map fst ours_map)" "h \<in> set (map fst off_map)"
    and hs: "set hs \<subseteq> set (map fst ours_map) \<inter> set (map fst off_map)" by auto
  show ?case
  proof (cases "side_ok ours_map h \<and> side_ok off_map h")
    case True
    then show ?thesis
      using classify_step_closed[OF h, of c] Cons.IH[OF hs, of "tally ours_map off_map [h] c"]
      by (simp add: tally_Cons)
  next
    case False
    then show ?thesis using classify_step_closed[OF h, of c] by auto
  qed
qed

lemma length_filter_mset:
  "mset xs = mset ys \<Longrightarrow> length (filter P xs) = length (filter P ys)"
  by (metis mset_filter size_mset)

lemma tally_perm: "mset hs = mset hs' \<Longrightarrow> tally ours_map off_map hs c = tally ours_map off_map hs' c"
  unfolding tally_def by (simp add: length_filter_mset[of hs hs'])

lemma aligned_keys_set:
  "set (aligned_keys ours_map off_map) = set (map fst ours_map) \<inter> set (map fst off_map)"
  by (simp add: aligned_keys_def)

lemma aligned_keys_distinct: "distinct (aligned_keys ours_map off_map)"
  by (simp add: aligned_keys_def)

lemma aligned_keys_sorted: "sorted (aligned_keys ours_map off_map)"
  by (simp add: aligned_keys_def)

lemma classify_loop_perm:
  assumes "mset hs = mset (aligned_keys ours_map off_map)"
  shows "classify_loop ours_map off_map hs c
       = classify_loop ours_map off_map (aligned_keys ours_map off_map) c"
proof -
  have s: "set hs = set (aligned_keys ours_map off_map)" using assms by (rule mset_eq_setD)
  then have sub: "set hs \<subseteq> set (map fst ours_map) \<inter> set (map fst off_map)"
    by (simp add: aligned_keys_set)
  have sub': "set (aligned_keys ours_map off_map) \<subseteq> set (map fst ours_map) \<inter> set (map fst off_map)"
    by (simp add: aligned_keys_set)
  show ?thesis
    unfolding classify_loop_closed[OF sub] classify_loop_closed[OF sub']
    using s tally_perm[OF assms] by simp
qed

lemma four_way_length:
  "int (length (filter (\<lambda>h. A h \<and> B h) hs)) + int (length (filter (\<lambda>h. A h \<and> \<not> B h) hs))
   + int (length (filter (\<lambda>h. \<not> A h \<and> B h) hs)) + int (length (filter (\<lambda>h. \<not> A h \<and> \<not> B h) hs))
   = int (length hs)"
  by (induction hs) auto

lemma classify_step_keys:
  assumes "classify_step ours_map off_map h c = Inr c'"
  shows "h \<in> set (map fst ours_map) \<and> h \<in> set (map fst off_map)"
proof -
  have "map_of ours_map h \<noteq> None"
    using assms by (cases "map_of ours_map h") (simp_all add: classify_step_def dict_item_def)
  moreover have "map_of off_map h \<noteq> None"
    using assms
    by (cases "map_of ours_map h"; cases "map_of off_map h")
       (simp_all add: classify_step_def dict_item_def)
  ultimately show ?thesis by (simp add: map_of_eq_None_iff)
qed

lemma classify_step_tally:
  assumes "classify_step ours_map off_map h c = Inr c'"
  shows "c' = tally ours_map off_map [h] c"
proof -
  from classify_step_keys[OF assms]
  have "classify_step ours_map off_map h c =
    (if side_ok ours_map h \<and> side_ok off_map h then Inr (tally ours_map off_map [h] c)
     else Inl AttributeError)"
    by (intro classify_step_closed) simp_all
  then show ?thesis using assms by (simp split: if_splits)
qed

lemma classify_step_one_of_four:
  assumes "classify_step ours_map off_map h c = Inr c'"
  shows "(TP c' = TP c + 1 \<and> FP c' = FP c \<and> FN c' = FN c \<and> TN c' = TN c)
       \<or> (TP c' = TP c \<and> FP c' = FP c + 1 \<and> FN c' = FN c \<and> TN c' = TN c)
       \<or> (TP c' = TP c \<and> FP c' = FP c \<and> FN c' = FN c + 1 \<and> TN c' = TN c)
       \<or> (TP c' = TP c \<and> FP c' = FP c \<and> FN c' = FN c \<and> TN c' = TN c + 1)"
  unfolding classify_step_tally[OF assms]
  by (cases "side_triggered ours_map h"; cases "side_triggered off_map h")
     (simp_all add: tally_def)

lemma aligned_loop_closed:
  "classify_loop ours_map off_map (aligned_keys ours_map off_map) c =
    (if \<forall>h\<in>set (aligned_keys ours_map off_map). side_ok ours_map h \<and> side_ok off_map h
     then Inr (tally ours_map off_map (aligned_keys ours_map off_map) c)
     else Inl AttributeError)"
  by (rule classify_loop_closed) (simp add: aligned_keys_set)

lemma tally_total:
  "TP (tally ours_map off_map hs c) + FP (tally ours_map off_map hs c)
   + FN (tally ours_map off_map hs c) + TN (tally ours_map off_map hs c)
   = TP c + FP c + FN c + TN c + int (length hs)"
proof -
  have "int (length (filter (\<lambda>h. side_triggered ours_map h \<and> side_triggered off_map h) hs))
      + int (length (filter (\<lambda>h. side_triggered ours_map h \<and> \<not> side_triggered off_map h) hs))
      + int (length (filter (\<lambda>h. \<not> side_triggered ours_map h \<and> side_triggered off_map h) hs))
      + int (length (filter (\<lambda>h. \<not> side_triggered ours_map h \<and> \<not> side_triggered off_map h) hs))
      = int (length hs)"
    by (rule four_way_length)
  then show ?thesis by (simp add: tally_def)
qed

lemma aligned_keys_length:
  "length (aligned_keys ours_map off_map) = card (set (map fst ours_map) \<inter> set (map fst off_map))"
  by (simp add: aligned_keys_def)

section \<open>Confusion matrix\<close>

text \<open>
  C2. One pass of the loop body that completes adds one to exactly one of TP, FP, FN, TN.
  The loop visits the fingerprints of the intersection of the two key sets, each once, and
  no other; it completes exactly when the finish reason of both records can be extracted
  under every one of them. When it completes, each counter is the number of aligned
  fingerprints in its class (\<open>tally\<close>), and TP + FP + FN + TN is the size of the aligned set.
\<close>

theorem confusion_matrix_complete:
  "(\<forall>h c c'. classify_step ours_map off_map h c = Inr c' \<longrightarrow>
        (TP c' = TP c + 1 \<and> FP c' = FP c \<and> FN c' = FN c \<and> TN c' = TN c)
      \<or> (TP c' = TP c \<and> FP c' = FP c + 1 \<and> FN c' = FN c \<and> TN c' = TN c)
      \<or> (TP c' = TP c \<and> FP c' = FP c \<and> FN c' = FN c + 1 \<and> TN c' = TN c)
      \<or> (TP c' = TP c \<and> FP c' = FP c \<and> FN c' = FN c \<and> TN c' = TN c + 1))
   \<and> set (aligned_keys ours_map off_map) = set (map fst ours_map) \<inter> set (map fst off_map)
   \<and> distinct (aligned_keys ours_map off_map)
   \<and> ((\<exists>c. classify_loop ours_map off_map (aligned_keys ours_map off_map) counters0 = Inr c)
        \<longleftrightarrow> (\<forall>h\<in>set (aligned_keys ours_map off_map). side_ok ours_map h \<and> side_ok off_map h))
   \<and> (\<forall>c. classify_loop ours_map off_map (aligned_keys ours_map off_map) counters0 = Inr c \<longrightarrow>
        c = tally ours_map off_map (aligned_keys ours_map off_map) counters0
        \<and> TP c + FP c + FN c + TN c
            = int (card (set (map fst ours_map) \<inter> set (map fst off_map))))"
proof (intro conjI allI impI)
  fix h c c' assume "classify_step ours_map off_map h c = Inr c'"
  then show "(TP c' = TP c + 1 \<and> FP c' = FP c \<and> FN c' = FN c \<and> TN c' = TN c)
      \<or> (TP c' = TP c \<and> FP c' = FP c + 1 \<and> FN c' = FN c \<and> TN c' = TN c)
      \<or> (TP c' = TP c \<and> FP c' = FP c \<and> FN c' = FN c + 1 \<and> TN c' = TN c)
      \<or> (TP c' = TP c \<and> FP c' = FP c \<and> FN c' = FN c \<and> TN c' = TN c + 1)"
    by (rule classify_step_one_of_four)
next
  show "set (aligned_keys ours_map off_map) = set (map fst ours_map) \<inter> set (map fst off_map)"
    by (rule aligned_keys_set)
next
  show "distinct (aligned_keys ours_map off_map)" by (rule aligned_keys_distinct)
next
  show "(\<exists>c. classify_loop ours_map off_map (aligned_keys ours_map off_map) counters0 = Inr c)
        \<longleftrightarrow> (\<forall>h\<in>set (aligned_keys ours_map off_map). side_ok ours_map h \<and> side_ok off_map h)"
    unfolding aligned_loop_closed by simp
next
  fix c assume l: "classify_loop ours_map off_map (aligned_keys ours_map off_map) counters0 = Inr c"
  then show c: "c = tally ours_map off_map (aligned_keys ours_map off_map) counters0"
    unfolding aligned_loop_closed by (simp split: if_splits)
  show "TP c + FP c + FN c + TN c = int (card (set (map fst ours_map) \<inter> set (map fst off_map)))"
    unfolding c tally_total by (simp add: counters0_def aligned_keys_length)
qed

theorem confusion_matrix_complete_witness:
  "classify_loop sample_ours_index sample_off_index
     (aligned_keys sample_ours_index sample_off_index) counters0
   = Inr \<lparr>TP = 1, FP = 1, FN = 1, TN = 0, count_finish_reason_tool_calls = 2,
          count_successful_tool_call = 1\<rparr>
   \<and> int (card (set (map fst sample_ours_index) \<inter> set (map fst sample_off_index))) = 3"
proof -
  have l: "classify_loop sample_ours_index sample_off_index
     (aligned_keys sample_ours_index sample_off_index) counters0
   = Inr \<lparr>TP = 1, FP = 1, FN = 1, TN = 0, count_finish_reason_tool_calls = 2,
          count_successful_tool_call = 1\<rparr>"
    by code_simp
  with confusion_matrix_complete[of sample_ours_index sample_off_index]
  have "TP \<lparr>TP = 1, FP = 1, FN = 1, TN = 0, count_finish_reason_tool_calls = 2,
          count_successful_tool_call = 1\<rparr> + FP \<lparr>TP = 1, FP = 1, FN = 1, TN = 0, count_finish_reason_tool_calls = 2,
          count_successful_tool_call = 1\<rparr> + FN \<lparr>TP = 1, FP = 1, FN = 1, TN = 0, count_finish_reason_tool_calls = 2,
          count_successful_tool_call = 1\<rparr> + TN \<lparr>TP = 1, FP = 1, FN = 1, TN = 0, count_finish_reason_tool_calls = 2,
          count_successful_tool_call = 1\<rparr>
        = int (card (set (map fst sample_ours_index) \<inter> set (map fst sample_off_index)))"
    by blast
  then show ?thesis using l by simp
qed

lemma classify_step_invariant:
  assumes "classify_step ours_map off_map h c = Inr c'"
    and "count_finish_reason_tool_calls c = TP c + FP c"
    and "count_successful_tool_call c \<le> count_finish_reason_tool_calls c"
  shows "count_finish_reason_tool_calls c' = TP c' + FP c'
       \<and> count_successful_tool_call c' \<le> count_finish_reason_tool_calls c'"
  unfolding classify_step_tally[OF assms(1)] using assms(2,3)
  by (cases "side_triggered ours_map h"; cases "side_triggered off_map h")
     (simp_all add: tally_def)

lemma classify_loop_invariant:
  "classify_loop ours_map off_map hs c = Inr c' \<Longrightarrow>
   count_finish_reason_tool_calls c = TP c + FP c \<Longrightarrow>
   count_successful_tool_call c \<le> count_finish_reason_tool_calls c \<Longrightarrow>
   count_finish_reason_tool_calls c' = TP c' + FP c'
     \<and> count_successful_tool_call c' \<le> count_finish_reason_tool_calls c'"
proof (induction hs arbitrary: c)
  case Nil
  then show ?case by simp
next
  case (Cons h hs)
  then obtain c1 where s: "classify_step ours_map off_map h c = Inr c1"
    and l: "classify_loop ours_map off_map hs c1 = Inr c'"
    by (auto split: sum.splits)
  from classify_step_invariant[OF s Cons.prems(2,3)] Cons.IH[OF l] show ?case by simp
qed

text \<open>
  C9. After the loop the candidate-triggered counter equals TP + FP and the
  successful-tool-call counter is at most the candidate-triggered counter; the loop
  completes when both finish reasons can be extracted under every aligned fingerprint.
\<close>

theorem schema_counters_invariant:
  "((\<forall>h\<in>set (aligned_keys ours_map off_map). side_ok ours_map h \<and> side_ok off_map h) \<longrightarrow>
      (\<exists>c. classify_loop ours_map off_map (aligned_keys ours_map off_map) counters0 = Inr c))
   \<and> (\<forall>c. classify_loop ours_map off_map (aligned_keys ours_map off_map) counters0 = Inr c \<longrightarrow>
        count_finish_reason_tool_calls c = TP c + FP c
        \<and> count_successful_tool_call c \<le> count_finish_reason_tool_calls c)"
proof (intro conjI allI impI)
  assume "\<forall>h\<in>set (aligned_keys ours_map off_map). side_ok ours_map h \<and> side_ok off_map h"
  then show "\<exists>c. classify_loop ours_map off_map (aligned_keys ours_map off_map) counters0 = Inr c"
    unfolding aligned_loop_closed by simp
next
  fix c assume l: "classify_loop ours_map off_map (aligned_keys ours_map off_map) counters0 = Inr c"
  have "count_finish_reason_tool_calls counters0 = TP counters0 + FP counters0"
    and "count_successful_tool_call counters0 \<le> count_finish_reason_tool_calls counters0"
    by (simp_all add: counters0_def)
  from classify_loop_invariant[OF l this]
  show "count_finish_reason_tool_calls c = TP c + FP c"
    and "count_successful_tool_call c \<le> count_finish_reason_tool_calls c" by simp_all
qed

theorem schema_counters_invariant_witness:
  "aligned_keys sample_ours_index sample_off_index = [''a'', ''b'', ''d'']
   \<and> (\<exists>c. classify_loop sample_ours_index sample_off_index
            (aligned_keys sample_ours_index sample_off_index) counters0 = Inr c
        \<and> count_finish_reason_tool_calls c = TP c + FP c
        \<and> count_successful_tool_call c \<le> count_finish_reason_tool_calls c)"
proof -
  have ok: "\<forall>h\<in>set (aligned_keys sample_ours_index sample_off_index).
       side_ok sample_ours_index h \<and> side_ok sample_off_index h"
    by code_simp
  note inst = schema_counters_invariant[of sample_ours_index sample_off_index]
  from inst ok obtain c where
    "classify_loop sample_ours_index sample_off_index
       (aligned_keys sample_ours_index sample_off_index) counters0 = Inr c" by blast
  moreover have "aligned_keys sample_ours_index sample_off_index = [''a'', ''b'', ''d'']"
    by code_simp
  ultimately show ?thesis using inst by blast
qed

text \<open>
  C8. Running \<^verbatim>\<open>main\<close> from the counters' initialisation to the summary over any
  permutation of the aligned fingerprints gives the result of running it in ascending order:
  the same summary, or the same error.
\<close>

theorem order_independence:
  assumes "mset hs = mset (aligned_keys ours_map off_map)"
  shows "summarize round2 ours_map ours_dups off_map off_dups hs
       = summarize round2 ours_map ours_dups off_map off_dups (aligned_keys ours_map off_map)"
proof -
  have len: "length hs = length (aligned_keys ours_map off_map)"
    using assms by (rule mset_eq_length)
  have loop: "classify_loop ours_map off_map hs counters0
            = classify_loop ours_map off_map (aligned_keys ours_map off_map) counters0"
    using assms by (rule classify_loop_perm)
  show ?thesis by (simp only: summarize_def len loop)
qed

theorem order_independence_witness:
  "mset [''d'', ''a'', ''b''] = mset (aligned_keys sample_ours_index sample_off_index)
   \<and> summarize (\<lambda>x. x) sample_ours_index 0 sample_off_index 0 [''d'', ''a'', ''b'']
     = summarize (\<lambda>x. x) sample_ours_index 0 sample_off_index 0 [''a'', ''b'', ''d'']"
proof -
  have a: "aligned_keys sample_ours_index sample_off_index = [''a'', ''b'', ''d'']"
    by code_simp
  have m: "mset [''d'', ''a'', ''b''] = mset (aligned_keys sample_ours_index sample_off_index)"
    unfolding a by simp
  from order_independence[OF m, of "\<lambda>x. x" 0 0] m show ?thesis unfolding a by simp
qed

section \<open>Derived ratios\<close>

lemma py_truediv_guard: "b > 0 \<Longrightarrow> py_truediv a b = Inr (a / b)"
  by (simp add: py_truediv_def)

lemma derive_ratios_total:
  "derive_ratios c =
     Inr \<lparr>precision = (if TP c + FP c > 0 then of_int (TP c) / of_int (TP c + FP c) else 0),
          recall = (if TP c + FN c > 0 then of_int (TP c) / of_int (TP c + FN c) else 0),
          f1 = (let p = (if TP c + FP c > 0 then of_int (TP c) / of_int (TP c + FP c) else 0);
                    r = (if TP c + FN c > 0 then of_int (TP c) / of_int (TP c + FN c) else 0)
                in if p + r > 0 then 2 * p * r / (p + r) else 0),
          schema_accuracy = (if count_finish_reason_tool_calls c > 0
             then of_int (count_successful_tool_call c) / of_int (count_finish_reason_tool_calls c)
             else 0)\<rparr>"
  unfolding derive_ratios_def Let_def
  by (simp add: py_truediv_guard)

text \<open>
  C3. The derived ratios are computed without an exception for every state of the
  counters; each is 0 when its denominator is zero: precision when TP + FP = 0, recall
  when TP + FN = 0, F1 when precision + recall = 0, schema accuracy when the
  candidate-triggered count is 0. With no aligned fingerprint the loop leaves the counters at
  zero and all four ratios are 0.
\<close>

theorem zero_division_policy:
  "(\<exists>q. derive_ratios c = Inr q
        \<and> (TP c + FP c = 0 \<longrightarrow> precision q = 0)
        \<and> (TP c + FN c = 0 \<longrightarrow> recall q = 0)
        \<and> (precision q + recall q = 0 \<longrightarrow> f1 q = 0)
        \<and> (count_finish_reason_tool_calls c = 0 \<longrightarrow> schema_accuracy q = 0))
   \<and> (aligned_keys ours_map off_map = [] \<longrightarrow>
        (\<exists>c0. classify_loop ours_map off_map (aligned_keys ours_map off_map) counters0 = Inr c0
           \<and> derive_ratios c0
               = Inr \<lparr>precision = 0, recall = 0, f1 = 0, schema_accuracy = 0\<rparr>))"
proof (intro conjI impI)
  show "\<exists>q. derive_ratios c = Inr q
        \<and> (TP c + FP c = 0 \<longrightarrow> precision q = 0)
        \<and> (TP c + FN c = 0 \<longrightarrow> recall q = 0)
        \<and> (precision q + recall q = 0 \<longrightarrow> f1 q = 0)
        \<and> (count_finish_reason_tool_calls c = 0 \<longrightarrow> schema_accuracy q = 0)"
    unfolding derive_ratios_total by (simp add: Let_def)
next
  assume "aligned_keys ours_map off_map = []"
  then show "\<exists>c0. classify_loop ours_map off_map (aligned_keys ours_map off_map) counters0 = Inr c0
           \<and> derive_ratios c0
               = Inr \<lparr>precision = 0, recall = 0, f1 = 0, schema_accuracy = 0\<rparr>"
    by (simp add: derive_ratios_total counters0_def)
qed

theorem zero_division_policy_witness:
  "aligned_keys [(''a'', [])] [(''b'', [])] = []
   \<and> derive_ratios counters0 = Inr \<lparr>precision = 0, recall = 0, f1 = 0, schema_accuracy = 0\<rparr>
   \<and> derive_ratios \<lparr>TP = 0, FP = 0, FN = 0, TN = 3, count_finish_reason_tool_calls = 0,
                     count_successful_tool_call = 0\<rparr>
       = Inr \<lparr>precision = 0, recall = 0, f1 = 0, schema_accuracy = 0\<rparr>"
proof -
  have a: "aligned_keys [(''a'', [])] [(''b'', [])] = []" by (simp add: aligned_keys_def)
  from zero_division_policy[of counters0 "[(''a'', [])]" "[(''b'', [])]"] a
  have z: "derive_ratios counters0
      = Inr \<lparr>precision = 0, recall = 0, f1 = 0, schema_accuracy = 0\<rparr>" by simp
  let ?c = "\<lparr>TP = 0, FP = 0, FN = 0, TN = 3, count_finish_reason_tool_calls = 0,
                     count_successful_tool_call = 0\<rparr>"
  from zero_division_policy[of ?c "[]" "[]"]
  obtain q where q: "derive_ratios ?c = Inr q" "precision q = 0" "recall q = 0"
    "schema_accuracy q = 0" "f1 q = 0" by auto
  then have "q = \<lparr>precision = 0, recall = 0, f1 = 0, schema_accuracy = 0\<rparr>"
    by (cases q) simp
  then show ?thesis using a z q(1) by simp
qed

section \<open>Missing optional fields\<close>





section \<open>Triggers\<close>

lemma is_tool_calls_iff: "is_tool_calls fr \<longleftrightarrow> fr = JStr ''tool_calls''"
  by (cases fr) (auto simp: is_tool_calls_def)

lemma side_triggered_iff:
  "side_triggered m h \<longleftrightarrow>
   (\<exists>e. map_of m h = Some e \<and> extract_finish_reason e = Inr (JStr ''tool_calls''))"
  by (auto simp: side_triggered_def is_tool_calls_iff split: option.splits sum.splits)

text \<open>
  C10. The trigger test holds of the string \<^verbatim>\<open>tool_calls\<close> and of no other value: not of
  the absence marker, of another string, of a number, a boolean, a list or an object. A side
  is triggered exactly when its record's extracted finish reason is that string. When the
  candidate's extracted finish reason is anything else, a pass of the loop leaves TP, FP and
  both schema counters as they were; when the reference's is anything else, it leaves TP and
  FN as they were.
\<close>

theorem trigger_is_literal_tool_calls:
  "(is_tool_calls fr \<longleftrightarrow> fr = JStr ''tool_calls'')
   \<and> (side_triggered m h \<longleftrightarrow>
        (\<exists>e. map_of m h = Some e \<and> extract_finish_reason e = Inr (JStr ''tool_calls'')))
   \<and> (\<forall>e c c'. map_of ours_map h = Some e
          \<and> extract_finish_reason e \<noteq> Inr (JStr ''tool_calls'')
          \<and> classify_step ours_map off_map h c = Inr c' \<longrightarrow>
          TP c' = TP c \<and> FP c' = FP c
          \<and> count_finish_reason_tool_calls c' = count_finish_reason_tool_calls c
          \<and> count_successful_tool_call c' = count_successful_tool_call c)
   \<and> (\<forall>e c c'. map_of off_map h = Some e
          \<and> extract_finish_reason e \<noteq> Inr (JStr ''tool_calls'')
          \<and> classify_step ours_map off_map h c = Inr c' \<longrightarrow>
          TP c' = TP c \<and> FN c' = FN c)"
proof (intro conjI allI impI)
  show "is_tool_calls fr \<longleftrightarrow> fr = JStr ''tool_calls''" by (rule is_tool_calls_iff)
  show "side_triggered m h \<longleftrightarrow>
        (\<exists>e. map_of m h = Some e \<and> extract_finish_reason e = Inr (JStr ''tool_calls''))"
    by (rule side_triggered_iff)
next
  fix e c c'
  assume a: "map_of ours_map h = Some e
          \<and> extract_finish_reason e \<noteq> Inr (JStr ''tool_calls'')
          \<and> classify_step ours_map off_map h c = Inr c'"
  then have n: "\<not> side_triggered ours_map h" by (simp add: side_triggered_iff)
  have c': "c' = tally ours_map off_map [h] c" using a by (simp add: classify_step_tally)
  show "TP c' = TP c" "FP c' = FP c"
    "count_finish_reason_tool_calls c' = count_finish_reason_tool_calls c"
    "count_successful_tool_call c' = count_successful_tool_call c"
    unfolding c' using n by (simp_all add: tally_def)
next
  fix e c c'
  assume a: "map_of off_map h = Some e
          \<and> extract_finish_reason e \<noteq> Inr (JStr ''tool_calls'')
          \<and> classify_step ours_map off_map h c = Inr c'"
  then have n: "\<not> side_triggered off_map h" by (simp add: side_triggered_iff)
  have c': "c' = tally ours_map off_map [h] c" using a by (simp add: classify_step_tally)
  show "TP c' = TP c" "FN c' = FN c"
    unfolding c' using n by (simp_all add: tally_def)
qed

theorem trigger_is_literal_tool_calls_witness:
  "\<not> is_tool_calls (JInt 1) \<and> \<not> is_tool_calls (JBool True) \<and> \<not> is_tool_calls JNull
   \<and> \<not> is_tool_calls (JStr ''Tool_calls'') \<and> \<not> is_tool_calls (JArr [JStr ''tool_calls''])
   \<and> is_tool_calls (JStr ''tool_calls'')
   \<and> classify_step [(''k'', [(''finish_reason'', JBool True)])]
        [(''k'', [(''finish_reason'', JStr ''tool_calls'')])] ''k'' counters0
      = Inr \<lparr>TP = 0, FP = 0, FN = 1, TN = 0, count_finish_reason_tool_calls = 0,
             count_successful_tool_call = 0\<rparr>"
proof -
  let ?o = "[(''k'', [(''finish_reason'', JBool True)])]"
  let ?f = "[(''k'', [(''finish_reason'', JStr ''tool_calls'')])]"
  let ?r = "\<lparr>TP = 0, FP = 0, FN = 1, TN = 0, count_finish_reason_tool_calls = 0,
             count_successful_tool_call = 0\<rparr>"
  have s: "classify_step ?o ?f ''k'' counters0 = Inr ?r" by code_simp
  have e: "map_of ?o ''k'' = Some [(''finish_reason'', JBool True)]
     \<and> extract_finish_reason [(''finish_reason'', JBool True)] \<noteq> Inr (JStr ''tool_calls'')
     \<and> classify_step ?o ?f ''k'' counters0 = Inr ?r"
    using s by (simp add: extract_finish_reason_def dict_get_def)
  have step: "\<forall>e c c'. map_of ?o ''k'' = Some e
          \<and> extract_finish_reason e \<noteq> Inr (JStr ''tool_calls'')
          \<and> classify_step ?o ?f ''k'' c = Inr c' \<longrightarrow>
          TP c' = TP c \<and> FP c' = FP c
          \<and> count_finish_reason_tool_calls c' = count_finish_reason_tool_calls c
          \<and> count_successful_tool_call c' = count_successful_tool_call c"
    using trigger_is_literal_tool_calls[where ours_map = ?o and off_map = ?f and h = "''k''",
        THEN conjunct2, THEN conjunct2, THEN conjunct1] .
  have untouched: "TP ?r = TP counters0 \<and> FP ?r = FP counters0"
    using step[rule_format, OF e] by simp
  have "\<not> is_tool_calls (JInt 1)"
    using trigger_is_literal_tool_calls[where fr = "JInt 1", THEN conjunct1] by simp
  moreover have "\<not> is_tool_calls (JBool True)"
    using trigger_is_literal_tool_calls[where fr = "JBool True", THEN conjunct1] by simp
  moreover have "\<not> is_tool_calls JNull"
    using trigger_is_literal_tool_calls[where fr = "JNull", THEN conjunct1] by simp
  moreover have "\<not> is_tool_calls (JStr ''Tool_calls'')"
    using trigger_is_literal_tool_calls[where fr = "JStr ''Tool_calls''", THEN conjunct1] by simp
  moreover have "\<not> is_tool_calls (JArr [JStr ''tool_calls''])"
    using trigger_is_literal_tool_calls[where fr = "JArr [JStr ''tool_calls'']", THEN conjunct1]
    by simp
  moreover have "is_tool_calls (JStr ''tool_calls'')"
    using trigger_is_literal_tool_calls[where fr = "JStr ''tool_calls''", THEN conjunct1] by simp
  ultimately show ?thesis using s untouched by simp
qed

section \<open>End-to-end scenarios\<close>

text \<open>
  The specification's scenarios A and B, with the identity for the digest and for the
  rounding, and a run over a row whose \<^verbatim>\<open>request\<close> is null.
\<close>

lemma scenario_A:
  "main_core (\<lambda>s. s) (\<lambda>x. x)
     [[(''request'', JObj [(''messages'',
          JArr [JObj [(''role'', JStr ''user''), (''content'', JStr ''hi'')]])]),
       (''finish_reason'', JStr ''tool_calls''), (''tool_calls_valid'', JBool True)]]
     [[(''request'', JObj [(''messages'',
          JArr [JObj [(''role'', JStr ''user''), (''content'', JStr ''hi'')]])]),
       (''finish_reason'', JStr ''tool_calls'')]]
   = Inr \<lparr>ours_total_unique_hashes = 1, official_total_unique_hashes = 1, aligned = 1,
          duplicate_ours_hashes = 0, duplicate_official_hashes = 0,
          key_type = ''messages_tools_tool_choice_hash'',
          out_TP = 1, out_FP = 0, out_FN = 0, out_TN = 0,
          out_precision = 100, out_recall = 100, tool_call_f1 = 100,
          out_count_finish_reason_tool_calls = 1, out_count_successful_tool_call = 1,
          out_schema_accuracy = 100\<rparr>"
  by code_simp

lemma scenario_B:
  "main_core (\<lambda>s. s) (\<lambda>x. x)
     [[(''request'', JObj [(''messages'',
          JArr [JObj [(''role'', JStr ''user''), (''content'', JStr ''hi'')]])]),
       (''finish_reason'', JStr ''tool_calls''), (''tool_calls_valid'', JBool False)]]
     [[(''request'', JObj [(''messages'',
          JArr [JObj [(''role'', JStr ''user''), (''content'', JStr ''hi'')]])]),
       (''finish_reason'', JStr ''stop'')]]
   = Inr \<lparr>ours_total_unique_hashes = 1, official_total_unique_hashes = 1, aligned = 1,
          duplicate_ours_hashes = 0, duplicate_official_hashes = 0,
          key_type = ''messages_tools_tool_choice_hash'',
          out_TP = 0, out_FP = 1, out_FN = 0, out_TN = 0,
          out_precision = 0, out_recall = 0, tool_call_f1 = 0,
          out_count_finish_reason_tool_calls = 1, out_count_successful_tool_call = 0,
          out_schema_accuracy = 0\<rparr>"
  by code_simp

lemma scenario_ill_typed_request:
  "main_core (\<lambda>s. s) (\<lambda>x. x) [[(''request'', JNull)]] [] = Inl AttributeError"
  by code_simp

end
